theory Spec2Isabelle
  imports Complex_Main "HOL-Library.Word"
begin

section \<open>Errors raised by the notebooks' code\<close>

text \<open>
  The notebooks are Python. An exception that leaves a cell is a value of the type
  below, and a computation that can raise returns \<open>error + 'a\<close> (\<open>Inl\<close> the exception).
  \<open>LibraryError\<close> stands for an error of a wrapped library that is not one of Python's
  own (a failed device launch, an unreadable file).
\<close>

datatype error =
  IndexError | KeyError | ValueError | TypeError | FileNotFoundError | LibraryError

section \<open>The cuDF apply notebook\<close>

subsection \<open>Values, ranges and device arrays\<close>

text \<open>
  A float64 is a real number or one of the three special values; finite arithmetic is
  exact (rounding is not modelled). Input columns hold finite values (\<^verbatim>\<open>np.arange\<close>), so
  \<^verbatim>\<open>in1\<close> is a list of reals; \<^verbatim>\<open>np.inf\<close> is stored into \<^verbatim>\<open>out\<close> only.
\<close>

datatype f64 = Fin real | PInf | NInf | NaN

text \<open>\<^verbatim>\<open>summ / np.float64(average_length)\<close>: division by zero does not raise on the device.\<close>

definition fdiv :: "real \<Rightarrow> int \<Rightarrow> f64" where
  "fdiv s k =
     (if k \<noteq> 0 then Fin (s / of_int k)
      else if s = 0 then NaN else if 0 < s then PInf else NInf)"

text \<open>
  \<^verbatim>\<open>range(a, b, step)\<close> for a positive step. Every range of the notebook has step 1,
  \<^verbatim>\<open>cuda.blockDim.x\<close> (at least 1 on a launched kernel) or the chunk size (checked before
  the range is built), so the other steps are not reached.
\<close>

function py_range :: "int \<Rightarrow> int \<Rightarrow> int \<Rightarrow> int list" where
  "py_range a b step = (if 0 < step \<and> a < b then a # py_range (a + step) b step else [])"
  by pat_completeness auto
termination
  by (relation "measure (\<lambda>(a, b, step). nat (b - a))") auto

declare py_range.simps [simp del]

text \<open>
  A kernel receives slices of the columns: views into the column's buffer, given by the
  position of the slice's first element, the distance between two elements and the
  number of elements (\<^verbatim>\<open>in1.size\<close>). Numba compiles \<^verbatim>\<open>a[i]\<close> without a bounds check: a
  negative index wraps around once, and the element is read or written wherever it
  falls, inside the slice or not. \<open>addr v i\<close> is the position in the buffer of element \<open>i\<close>
  of the slice \<open>v\<close>. A load from outside the buffer yields a value the program does not
  determine.
\<close>

record view =
  offset :: nat
  stride :: nat
  vsize :: nat

definition addr :: "view \<Rightarrow> int \<Rightarrow> int" where
  "addr v i = int (offset v) + int (stride v) * (if i < 0 then i + int (vsize v) else i)"

definition load :: "view \<Rightarrow> int \<Rightarrow> 'a list \<Rightarrow> 'a" where
  "load v i buf =
     (let a = addr v i in if 0 \<le> a \<and> a < int (length buf) then buf ! nat a else undefined)"

text \<open>
  The two columns the kernels of this notebook work on. A kernel gets both and may store
  into either, so a kernel maps the state of the columns to their state. A store
  \<^verbatim>\<open>out[i] = x\<close> that falls outside the buffer of \<^verbatim>\<open>out\<close> leaves the column as it is
  and writes to memory that is not the column's: the state keeps these stray stores,
  position and value, in the order in which they happen.
\<close>

record 'a cols =
  in1 :: "real list"
  out :: "'a list"
  stray :: "(int \<times> 'a) list"

definition store_out :: "view \<Rightarrow> int \<Rightarrow> 'a \<Rightarrow> 'a cols \<Rightarrow> 'a cols" where
  "store_out v i x s =
     (let a = addr v i in
      if 0 \<le> a \<and> a < int (length (out s)) then s\<lparr>out := (out s)[nat a := x]\<rparr>
      else s\<lparr>stray := stray s @ [(a, x)]\<rparr>)"

subsection \<open>The kernels\<close>


text \<open>
  \<^verbatim>\<open>
  def kernel(in1, out):                      # passed to apply_chunks
      for i in range(cuda.threadIdx.x, in1.size, cuda.blockDim.x):
          out[i] = in1[i] * 2.0
  \<close>
  \<open>tid\<close> is \<^verbatim>\<open>cuda.threadIdx.x\<close> and \<open>ntid\<close> is \<^verbatim>\<open>cuda.blockDim.x\<close>.
\<close>

definition kernel_chunks :: "view \<Rightarrow> nat \<Rightarrow> nat \<Rightarrow> real cols \<Rightarrow> real cols" where
  "kernel_chunks v tid ntid df =
     fold (\<lambda>i s. store_out v i (load v i (in1 s) * 2) s)
       (py_range (int tid) (int (vsize v)) (int ntid)) df"

text \<open>
  The inner loop of both moving-average kernels:
  \<^verbatim>\<open>
  summ = 0.0
  for j in range(i - average_length + 1, i + 1):
      summ += in1[j]
  \<close>
\<close>

definition window_sum :: "view \<Rightarrow> real list \<Rightarrow> int \<Rightarrow> int \<Rightarrow> real" where
  "window_sum v xs i average_length =
     fold (\<lambda>j summ. summ + load v j xs) (py_range (i - average_length + 1) (i + 1) 1) 0"

text \<open>
  \<^verbatim>\<open>
  def kernel1(in1, out, average_length):
      for i in range(cuda.threadIdx.x, average_length-1, cuda.blockDim.x):
          out[i] = np.inf
      for i in range(cuda.threadIdx.x + average_length - 1, in1.size, cuda.blockDim.x):
          summ = 0.0
          for j in range(i - average_length + 1, i + 1):
              summ += in1[j]
          out[i] = summ / np.float64(average_length)
  \<close>
\<close>

definition kernel1 :: "int \<Rightarrow> view \<Rightarrow> nat \<Rightarrow> nat \<Rightarrow> f64 cols \<Rightarrow> f64 cols" where
  "kernel1 average_length v tid ntid df =
     (let df1 = fold (\<lambda>i s. store_out v i PInf s)
                  (py_range (int tid) (average_length - 1) (int ntid)) df
      in fold (\<lambda>i s. store_out v i
                    (fdiv (window_sum v (in1 s) i average_length) average_length) s)
           (py_range (int tid + average_length - 1) (int (vsize v)) (int ntid)) df1)"

text \<open>
  \<^verbatim>\<open>
  def kernel2(in1, out, average_length):
      if in1.size - average_length + cuda.threadIdx.x - average_length + 1 < 0 :
          return
      for i in range(in1.size - average_length + cuda.threadIdx.x, in1.size, cuda.blockDim.x):
          summ = 0.0
          for j in range(i - average_length + 1, i + 1):
              summ += in1[j]
          out[i] = summ / np.float64(average_length)
  \<close>
\<close>

definition kernel2 :: "int \<Rightarrow> view \<Rightarrow> nat \<Rightarrow> nat \<Rightarrow> f64 cols \<Rightarrow> f64 cols" where
  "kernel2 average_length v tid ntid df =
     (if int (vsize v) - average_length + int tid - average_length + 1 < 0 then df
      else fold (\<lambda>i s. store_out v i
                    (fdiv (window_sum v (in1 s) i average_length) average_length) s)
             (py_range (int (vsize v) - average_length + int tid) (int (vsize v)) (int ntid)) df)"

subsection \<open>The launches of the dataframe library\<close>



text \<open>
  \<^verbatim>\<open>df.apply_chunks(kernel, ..., chunks=cs, tpb=tpb)\<close> with a list \<open>cs\<close> of offsets starts one
  block of \<open>tpb\<close> threads per entry of \<open>cs\<close>. Block \<open>blk\<close> works on the slices
  \<^verbatim>\<open>a[cs[blk]:cs[blk+1]]\<close>, the last block on \<^verbatim>\<open>a[cs[blk]:]\<close>, and every thread of the block
  runs the kernel on them. A launch with no thread per block fails. \<open>sched\<close> lists the
  pairs of block and thread in the order in which they run.
\<close>

definition chunk_view :: "nat \<Rightarrow> nat list \<Rightarrow> nat \<Rightarrow> view" where
  "chunk_view nrows chunks blk =
     (let start = chunks ! blk;
          stop = (if blk + 1 < length chunks then chunks ! (blk + 1) else nrows)
      in \<lparr>offset = min start nrows, stride = 1, vsize = min stop nrows - min start nrows\<rparr>)"

definition all_threads :: "nat \<Rightarrow> nat \<Rightarrow> (nat \<times> nat) list" where
  "all_threads nblk tpb = List.product [0..<nblk] [0..<tpb]"

definition apply_chunks ::
    "(view \<Rightarrow> nat \<Rightarrow> nat \<Rightarrow> 'a cols \<Rightarrow> 'a cols) \<Rightarrow> nat list \<Rightarrow> nat \<Rightarrow> (nat \<times> nat) list \<Rightarrow>
     'a cols \<Rightarrow> error + 'a cols" where
  "apply_chunks kern chunks tpb sched df =
     (if tpb = 0 then Inl LibraryError
      else Inr (fold (\<lambda>(blk, tid). kern (chunk_view (length (in1 df)) chunks blk) tid tpb)
                  sched df))"


subsection \<open>The moving-average cell\<close>

text \<open>
  \<^verbatim>\<open>
  df = df.apply_chunks(kernel1, incols=['in1'], outcols=dict(out=np.float64),
                       kwargs=dict(average_length=average_window),
                       chunks=list(range(0, data_length, trunk_size)) + [data_length],
                       tpb=threads_per_block)
  df = df.apply_chunks(kernel2, incols=['in1', 'out'], outcols=dict(),
                       kwargs=dict(average_length=average_window),
                       chunks=[0] + list(range(average_window, data_length, trunk_size))
                              + [data_length],
                       tpb=threads_per_block)
  \<close>
  \<^verbatim>\<open>range\<close> raises ValueError for the step 0. The first launch allocates \<^verbatim>\<open>out\<close> without
  initialising it: the frame the cell starts from holds \<^verbatim>\<open>in1\<close> and the arbitrary first
  contents of \<^verbatim>\<open>out\<close>. The second launch passes \<^verbatim>\<open>out\<close> as an input column, so \<^verbatim>\<open>kernel2\<close>
  stores into the column the first launch filled. The window size is a count.
\<close>

definition chunks1 :: "nat \<Rightarrow> nat \<Rightarrow> nat list" where
  "chunks1 data_length trunk_size =
     map nat (py_range 0 (int data_length) (int trunk_size)) @ [data_length]"




section \<open>The weighted Jaccard notebook\<close>

subsection \<open>The most similar pair of vertices\<close>

text \<open>
  \<^verbatim>\<open>df = cugraph.jaccard_w(G, pr_df['pagerank'])\<close> is a dataframe with the columns
  \<^verbatim>\<open>source\<close>, \<^verbatim>\<open>destination\<close> and \<^verbatim>\<open>jaccard_coeff\<close>; all columns of a dataframe have
  the same length, so the frame is a list of rows. The coefficient is a float, read here
  as a real number (no NaN).
\<close>

record jaccard_row =
  source :: int
  destination :: int
  jaccard_coeff :: real

type_synonym jaccard_df = "jaccard_row list"

text \<open>\<^verbatim>\<open>df[col][i]\<close>: the element at position \<open>i\<close> of a column; an index past the end raises.\<close>

definition col_at :: "(jaccard_row \<Rightarrow> 'a) \<Rightarrow> jaccard_df \<Rightarrow> nat \<Rightarrow> error + 'a" where
  "col_at col df i = (if i < length df then Inr (col (df ! i)) else Inl IndexError)"

text \<open>
  \<^verbatim>\<open>
  bestEdge = 0
  for i in range(len(df)):
      if df['jaccard_coeff'][i] > df['jaccard_coeff'][bestEdge]:
          bestEdge = i
  \<close>
  The loop over the indices still to visit, carrying \<^verbatim>\<open>bestEdge\<close>.
\<close>

fun best_edge_loop :: "jaccard_df \<Rightarrow> nat list \<Rightarrow> nat \<Rightarrow> error + nat" where
  "best_edge_loop df [] bestEdge = Inr bestEdge"
| "best_edge_loop df (i # rest) bestEdge =
     (case col_at jaccard_coeff df i of
        Inl e \<Rightarrow> Inl e
      | Inr x \<Rightarrow>
          (case col_at jaccard_coeff df bestEdge of
             Inl e \<Rightarrow> Inl e
           | Inr y \<Rightarrow> best_edge_loop df rest (if x > y then i else bestEdge)))"

definition select_best_edge :: "jaccard_df \<Rightarrow> error + nat" where
  "select_best_edge df = best_edge_loop df [0..<length df] 0"

text \<open>
  The cell ends by printing \<^verbatim>\<open>df['source'][bestEdge]\<close>, \<^verbatim>\<open>df['destination'][bestEdge]\<close>
  and \<^verbatim>\<open>df['jaccard_coeff'][bestEdge]\<close>, read in this order; the three values printed are
  the result.
\<close>

definition report_best_edge :: "jaccard_df \<Rightarrow> error + (int \<times> int \<times> real)" where
  "report_best_edge df =
     (case select_best_edge df of
        Inl e \<Rightarrow> Inl e
      | Inr b \<Rightarrow>
          (case col_at source df b of
             Inl e \<Rightarrow> Inl e
           | Inr s \<Rightarrow>
               (case col_at destination df b of
                  Inl e \<Rightarrow> Inl e
                | Inr d \<Rightarrow>
                    (case col_at jaccard_coeff df b of
                       Inl e \<Rightarrow> Inl e
                     | Inr c \<Rightarrow> Inr (s, d, c)))))"

subsection \<open>Renumbering the vertices\<close>

text \<open>
  \<^verbatim>\<open>gdf = cudf.read_csv(..., dtype=['int32', 'int32'])\<close>: the columns hold 32-bit integers,
  and a column minus the scalar \<open>1\<close> is again an int32 column (the subtraction wraps).
  A dataframe maps column names to columns; reading a missing column raises KeyError.
  \<^verbatim>\<open>
  gdf['src_id'] = gdf['src'] -1
  gdf['dst_id'] = gdf['dst'] -1
  \<close>
\<close>

type_synonym i32 = "32 word"

type_synonym gdf = "string \<rightharpoonup> i32 list"

definition getitem :: "gdf \<Rightarrow> string \<Rightarrow> error + i32 list" where
  "getitem df name = (case df name of None \<Rightarrow> Inl KeyError | Some c \<Rightarrow> Inr c)"

definition series_sub :: "i32 list \<Rightarrow> i32 \<Rightarrow> i32 list" where
  "series_sub c k = map (\<lambda>x. x - k) c"

definition setitem :: "gdf \<Rightarrow> string \<Rightarrow> i32 list \<Rightarrow> gdf" where
  "setitem df name c = df(name \<mapsto> c)"

definition renumber :: "gdf \<Rightarrow> error + gdf" where
  "renumber df =
     (case getitem df ''src'' of
        Inl e \<Rightarrow> Inl e
      | Inr s \<Rightarrow>
          (let df1 = setitem df ''src_id'' (series_sub s 1) in
           case getitem df1 ''dst'' of
             Inl e \<Rightarrow> Inl e
           | Inr d \<Rightarrow> Inr (setitem df1 ''dst_id'' (series_sub d 1))))"

section \<open>The PCA and coordinate-descent notebooks\<close>

subsection \<open>Arrays, files and effects\<close>

text \<open>
  A two-dimensional array is its rows together with \<^verbatim>\<open>shape[1]\<close> (which the rows do not
  determine when there are none); \<^verbatim>\<open>shape[0]\<close> is the number of rows. Floats are read as
  real numbers.
\<close>

record matrix =
  shape1 :: nat
  mrows :: "real list list"

definition wf_matrix :: "matrix \<Rightarrow> bool" where
  "wf_matrix X \<longleftrightarrow> list_all (\<lambda>r. length r = shape1 X) (mrows X)"

text \<open>
  The files the notebooks look for: a gzip-compressed \<^verbatim>\<open>.npy\<close> array, a tab-separated
  edge list, or anything else. The file system maps a path to the file stored there.
\<close>

datatype stored_file = NpyGz matrix | EdgeList "(i32 \<times> i32) list" | OtherFile

type_synonym filesystem = "string \<rightharpoonup> stored_file"

text \<open>
  What a call does to the world outside the program is recorded, in order: a test for a
  path with its answer, the opening of a file with the mode and the format it is read
  in, and a line printed.
\<close>

datatype open_mode = ReadMode | WriteMode

datatype file_kind = GzipNpy | FlatCsv

datatype effect = PathExists string bool | OpenFile string open_mode file_kind | Stdout string

text \<open>\<^verbatim>\<open>os.path.exists(path)\<close>.\<close>

definition path_exists :: "filesystem \<Rightarrow> string \<Rightarrow> effect list \<times> bool" where
  "path_exists fs path = ([PathExists path (fs path \<noteq> None)], fs path \<noteq> None)"

text \<open>
  \<^verbatim>\<open>with gzip.open(cached) as f: X = np.load(f)\<close>: the file is opened for reading (the
  default mode of \<^verbatim>\<open>gzip.open\<close>); the libraries raise when it is missing or is not a
  compressed array.
\<close>

definition np_load_gz :: "filesystem \<Rightarrow> string \<Rightarrow> effect list \<times> (error + matrix)" where
  "np_load_gz fs path =
     ([OpenFile path ReadMode GzipNpy],
      case fs path of
        None \<Rightarrow> Inl FileNotFoundError
      | Some (NpyGz X) \<Rightarrow> Inr X
      | Some _ \<Rightarrow> Inl LibraryError)"

text \<open>
  \<^verbatim>\<open>cudf.read_csv(datafile, names=["src", "dst"], delimiter='\t', dtype=['int32', 'int32'])\<close>
  of the weighted Jaccard notebook.
\<close>

definition read_csv :: "filesystem \<Rightarrow> string \<Rightarrow> effect list \<times> (error + gdf)" where
  "read_csv fs datafile =
     ([OpenFile datafile ReadMode FlatCsv],
      case fs datafile of
        None \<Rightarrow> Inl FileNotFoundError
      | Some (EdgeList es) \<Rightarrow> Inr [''src'' \<mapsto> map fst es, ''dst'' \<mapsto> map snd es]
      | Some _ \<Rightarrow> Inl LibraryError)"

text \<open>
  \<^verbatim>\<open>np.random.randint(low, high, size)\<close>: \<open>size\<close> integers from \<open>low\<close> up to but not
  including \<open>high\<close>; ValueError unless \<open>low < high\<close>. The generator is a parameter:
  \<open>rnd k\<close> is its \<open>k\<close>-th raw draw.
\<close>

definition randint :: "(nat \<Rightarrow> nat) \<Rightarrow> int \<Rightarrow> int \<Rightarrow> nat \<Rightarrow> error + int list" where
  "randint rnd low high count =
     (if high \<le> low then Inl ValueError
      else Inr (map (\<lambda>k. low + int (rnd k) mod (high - low)) [0..<count]))"

text \<open>
  \<^verbatim>\<open>X[rindices, :ncols]\<close>: the rows at the given indices, cut to the first \<open>ncols\<close>
  columns. An index is in range when it lies between \<open>-shape[0]\<close> and \<open>shape[0] - 1\<close>; a
  negative one counts from the end.
\<close>

definition fancy_rows :: "matrix \<Rightarrow> int list \<Rightarrow> nat \<Rightarrow> error + matrix" where
  "fancy_rows X rindices ncols =
     (let n = int (length (mrows X)) in
      if list_all (\<lambda>k. - n \<le> k \<and> k < n) rindices
      then Inr \<lparr>shape1 = min ncols (shape1 X),
                mrows = map (\<lambda>k. take ncols (mrows X ! nat (if k < 0 then k + n else k))) rindices\<rparr>
      else Inl IndexError)"

text \<open>
  A pandas dataframe built from a dictionary of columns is the list of its labelled
  columns, in the order of insertion. The label \<^verbatim>\<open>'fea%d' % i\<close> is kept as \<open>Fea i\<close>
  (different numbers give different labels). \<open>frame_cols X R\<close> is
  \<^verbatim>\<open>pd.DataFrame({'fea%d'%i: R[:,i] for i in range(X.shape[1])})\<close> for a block \<open>R\<close> of rows
  of \<open>X\<close>.
\<close>

datatype colname = Fea nat

type_synonym dataframe = "(colname \<times> real list) list"

definition frame_cols :: "matrix \<Rightarrow> real list list \<Rightarrow> dataframe" where
  "frame_cols X R = map (\<lambda>i. (Fea i, map (\<lambda>r. r ! i) R)) [0..<shape1 X]"

text \<open>The number of rows of a dataframe, and its rows, read across the columns.\<close>

definition frame_len :: "dataframe \<Rightarrow> nat" where
  "frame_len df = (case df of [] \<Rightarrow> 0 | c # _ \<Rightarrow> length (snd c))"

definition frame_rows :: "dataframe \<Rightarrow> real list list" where
  "frame_rows df = map (\<lambda>i. map (\<lambda>c. snd c ! i) df) [0..<frame_len df]"

subsection \<open>\<^verbatim>\<open>load_data\<close> of the PCA notebook\<close>

text \<open>
  \<^verbatim>\<open>
  def load_data(nrows, ncols, cached = 'data/mortgage.npy.gz'):
      if os.path.exists(cached):
          print('use mortgage data')
          with gzip.open(cached) as f:
              X = np.load(f)
          X = X[np.random.randint(0,X.shape[0]-1,nrows),:ncols]
      else:
          # throws FileNotFoundError error if mortgage dataset is not present
          raise FileNotFoundError('Please download the required dataset or check the path')
      df = pd.DataFrame({'fea%d'%i:X[:,i] for i in range(X.shape[1])})
      return df
  \<close>
\<close>

definition mortgage_path :: string where
  "mortgage_path = ''data/mortgage.npy.gz''"

definition load_data_pca ::
    "filesystem \<Rightarrow> (nat \<Rightarrow> nat) \<Rightarrow> nat \<Rightarrow> nat \<Rightarrow> string \<Rightarrow> effect list \<times> (error + dataframe)" where
  "load_data_pca fs rnd nrows ncols cached =
     (let (e1, present) = path_exists fs cached in
      if present then
        (let (e2, loaded) = np_load_gz fs cached;
             tr = e1 @ [Stdout ''use mortgage data''] @ e2
         in case loaded of
              Inl e \<Rightarrow> (tr, Inl e)
            | Inr X \<Rightarrow>
                (case randint rnd 0 (int (length (mrows X)) - 1) nrows of
                   Inl e \<Rightarrow> (tr, Inl e)
                 | Inr rindices \<Rightarrow>
                     (case fancy_rows X rindices ncols of
                        Inl e \<Rightarrow> (tr, Inl e)
                      | Inr X' \<Rightarrow> (tr, Inr (frame_cols X' (mrows X'))))))
      else (e1, Inl FileNotFoundError))"

subsection \<open>\<^verbatim>\<open>load_data\<close> of the coordinate-descent notebook\<close>

text \<open>
  \<^verbatim>\<open>
  def load_data(nrows, ncols, cached = 'data/mortgage.npy.gz'):
      # Split the dataset in a 80:20 split
      train_rows = int(nrows*0.8)
      if os.path.exists(cached):
          print('use mortgage data')
          with gzip.open(cached) as f:
              X = np.load(f)
          X = X[:,[i for i in range(X.shape[1]) if i!=4]]
          y = X[:,4:5]
          rindices = np.random.randint(0,X.shape[0]-1,nrows)
          X = X[rindices,:ncols]
          y = y[rindices]
          df_y_train = pd.DataFrame({'fea%d'%i:y[0:train_rows,i] for i in range(y.shape[1])})
          df_y_test = pd.DataFrame({'fea%d'%i:y[train_rows:,i] for i in range(y.shape[1])})
      else:
          print('use random data')
          X,y = make_regression(n_samples=nrows,n_features=ncols,n_informative=ncols, random_state=0)
          df_y_train = pd.DataFrame({'fea0':y[0:train_rows,]})
          df_y_test = pd.DataFrame({'fea0':y[train_rows:,]})
      df_X_train = pd.DataFrame({'fea%d'%i:X[0:train_rows,i] for i in range(X.shape[1])})
      df_X_test = pd.DataFrame({'fea%d'%i:X[train_rows:,i] for i in range(X.shape[1])})
      return df_X_train, df_X_test, df_y_train, df_y_test
  \<close>
  \<^verbatim>\<open>int(nrows*0.8)\<close> is the product, taken exactly, cut to an integer. \<^verbatim>\<open>make_regression\<close>
  belongs to scikit-learn and is a parameter \<open>mk\<close>: from the numbers of samples and of
  features to the array of samples and the one-dimensional array of targets.
\<close>

definition train_rows_of :: "nat \<Rightarrow> nat" where
  "train_rows_of nrows = nat \<lfloor>real nrows * (8 / 10)\<rfloor>"

definition drop_col4 :: "matrix \<Rightarrow> matrix" where
  "drop_col4 X =
     (let keep = filter (\<lambda>i. i \<noteq> 4) [0..<shape1 X]
      in \<lparr>shape1 = length keep, mrows = map (\<lambda>r. map (\<lambda>i. r ! i) keep) (mrows X)\<rparr>)"

definition col4to5 :: "matrix \<Rightarrow> matrix" where
  "col4to5 X =
     \<lparr>shape1 = min 5 (shape1 X) - min 4 (shape1 X), mrows = map (\<lambda>r. take 1 (drop 4 r)) (mrows X)\<rparr>"

definition load_data_cd ::
    "filesystem \<Rightarrow> (nat \<Rightarrow> nat) \<Rightarrow> (nat \<Rightarrow> nat \<Rightarrow> matrix \<times> real list) \<Rightarrow> nat \<Rightarrow> nat \<Rightarrow> string \<Rightarrow>
     effect list \<times> (error + dataframe \<times> dataframe \<times> dataframe \<times> dataframe)" where
  "load_data_cd fs rnd mk nrows ncols cached =
     (let train_rows = train_rows_of nrows;
          (e1, present) = path_exists fs cached in
      if present then
        (let (e2, loaded) = np_load_gz fs cached;
             tr = e1 @ [Stdout ''use mortgage data''] @ e2
         in case loaded of
              Inl e \<Rightarrow> (tr, Inl e)
            | Inr X0 \<Rightarrow>
                (let X1 = drop_col4 X0; y1 = col4to5 X1 in
                 case randint rnd 0 (int (length (mrows X1)) - 1) nrows of
                   Inl e \<Rightarrow> (tr, Inl e)
                 | Inr rindices \<Rightarrow>
                     (case fancy_rows X1 rindices ncols of
                        Inl e \<Rightarrow> (tr, Inl e)
                      | Inr X \<Rightarrow>
                          (case fancy_rows y1 rindices (shape1 y1) of
                             Inl e \<Rightarrow> (tr, Inl e)
                           | Inr y \<Rightarrow>
                               (tr, Inr (frame_cols X (take train_rows (mrows X)),
                                         frame_cols X (drop train_rows (mrows X)),
                                         frame_cols y (take train_rows (mrows y)),
                                         frame_cols y (drop train_rows (mrows y))))))))
      else
        (let (X, y) = mk nrows ncols
         in (e1 @ [Stdout ''use random data''],
             Inr (frame_cols X (take train_rows (mrows X)),
                  frame_cols X (drop train_rows (mrows X)),
                  [(Fea 0, take train_rows y)],
                  [(Fea 0, drop train_rows y)]))))"

subsection \<open>\<^verbatim>\<open>array_equal\<close> and \<^verbatim>\<open>to_nparray\<close> of the PCA notebook\<close>













section \<open>Notions used in the proofs\<close>

text \<open>
  \<open>writes xs n F H V\<close>: on columns of length \<open>n\<close> with input \<open>xs\<close>, the step \<open>F\<close> leaves the
  input alone and stores \<open>V g\<close> at every index \<open>g\<close> of \<open>H\<close> in \<open>out\<close>, and nothing else.
  \<open>stores_at v js\<close> are the positions in the buffer of the elements \<open>js\<close> of the slice \<open>v\<close>.
  \<open>kernel1_value\<close> is what the first launch leaves at an index, \<open>kernel1_stores\<close> and
  \<open>kernel2_stores\<close> are the indices one thread stores to.
\<close>

definition writes :: "real list \<Rightarrow> nat \<Rightarrow> ('a cols \<Rightarrow> 'a cols) \<Rightarrow> nat set \<Rightarrow> (nat \<Rightarrow> 'a) \<Rightarrow> bool" where
  "writes xs n F H V \<longleftrightarrow>
     (\<forall>s. in1 s = xs \<and> length (out s) = n \<longrightarrow>
        in1 (F s) = xs \<and> length (out (F s)) = n \<and>
        (\<forall>g < n. out (F s) ! g = (if g \<in> H then V g else out s ! g)))"

definition stores_at :: "view \<Rightarrow> int list \<Rightarrow> nat set" where
  "stores_at v js = (\<Union>i \<in> set js. {g. int g = addr v i})"




text \<open>\<open>first_max df b\<close>: row \<open>b\<close> is the first row of \<open>df\<close> whose coefficient is maximal.\<close>

definition first_max :: "jaccard_df \<Rightarrow> nat \<Rightarrow> bool" where
  "first_max df b \<longleftrightarrow>
     b < length df \<and>
     (\<forall>j < length df. jaccard_coeff (df ! j) \<le> jaccard_coeff (df ! b)) \<and>
     (\<forall>j < b. jaccard_coeff (df ! j) < jaccard_coeff (df ! b))"



text \<open>
  \<open>reads_guarded tr\<close>: every file opened in the trace \<open>tr\<close> is opened for reading, and a
  compressed array only after a test for its path was answered with True.
\<close>

definition reads_guarded :: "effect list \<Rightarrow> bool" where
  "reads_guarded tr \<longleftrightarrow>
     (\<forall>i < length tr. \<forall>path m k. tr ! i = OpenFile path m k \<longrightarrow>
        m = ReadMode \<and> (k = GzipNpy \<longrightarrow> PathExists path True \<in> set (take i tr)))"

text \<open>\<open>is_path_test e\<close>: the effect \<open>e\<close> is a test for a path.\<close>

definition is_path_test :: "effect \<Rightarrow> bool" where
  "is_path_test e = (case e of PathExists path found \<Rightarrow> True | _ \<Rightarrow> False)"

text \<open>
  \<open>tidy n F\<close>: on columns of length \<open>n\<close> the step \<open>F\<close> makes no stray store. \<open>grows F\<close>:
  the step \<open>F\<close> keeps the length of \<^verbatim>\<open>out\<close> and the stray stores made before it.
\<close>

definition tidy :: "nat \<Rightarrow> ('a cols \<Rightarrow> 'a cols) \<Rightarrow> bool" where
  "tidy n F \<longleftrightarrow> (\<forall>s. length (out s) = n \<longrightarrow> stray (F s) = stray s \<and> length (out (F s)) = n)"

definition grows :: "('a cols \<Rightarrow> 'a cols) \<Rightarrow> bool" where
  "grows F \<longleftrightarrow>
     (\<forall>s. length (out (F s)) = length (out s) \<and> (\<exists>extra. stray (F s) = stray s @ extra))"

section \<open>Proofs: stores of the kernels and of the launches\<close>

lemma writes_skip: "writes xs n (\<lambda>s. s) {} V"
  by (simp add: writes_def)

lemma writes_comp:
  assumes "writes xs n F H V" "writes xs n G H' V"
  shows "writes xs n (\<lambda>s. G (F s)) (H \<union> H') V"
  using assms unfolding writes_def by (auto simp: )

lemma writes_fold:
  assumes "\<And>k. k \<in> set ks \<Longrightarrow> writes xs n (F k) (H k) V"
  shows "writes xs n (fold F ks) (\<Union>k \<in> set ks. H k) V"
  using assms
proof (induction ks rule: rev_induct)
  case Nil
  show ?case using writes_skip [of xs n V] by (simp add: id_def)
next
  case (snoc k ks)
  have a: "writes xs n (fold F ks) (\<Union>k \<in> set ks. H k) V"
    using snoc by simp
  have b: "writes xs n (F k) (H k) V" using snoc.prems by simp
  have "writes xs n (\<lambda>s. F k (fold F ks s)) ((\<Union>k \<in> set ks. H k) \<union> H k) V"
    by (rule writes_comp [OF a b])
  moreover have "(\<Union>k \<in> set ks. H k) \<union> H k = (\<Union>k \<in> set (ks @ [k]). H k)" by auto
  moreover have "(\<lambda>s. F k (fold F ks s)) = fold F (ks @ [k])" by (simp add: fun_eq_iff)
  ultimately show ?case by simp
qed

lemma writes_store:
  assumes "\<And>g. g < n \<Longrightarrow> int g = addr v i \<Longrightarrow> val xs = V g"
  shows "writes xs n (\<lambda>s. store_out v i (val (in1 s)) s) {g. int g = addr v i} V"
  using assms unfolding writes_def store_out_def Let_def
  by (auto simp: nth_list_update)

lemma py_range_set:
  assumes "0 < step"
  shows "set (py_range a b step) = {i. a \<le> i \<and> i < b \<and> (i - a) mod step = 0}"
  using assms
proof (induction a b step rule: py_range.induct)
  case (1 a b step)
  show ?case
  proof (cases "a < b")
    case False
    then show ?thesis by (subst py_range.simps) auto
  next
    case True
    have ih: "set (py_range (a + step) b step) =
        {i. a + step \<le> i \<and> i < b \<and> (i - (a + step)) mod step = 0}"
      using 1 True by simp
    have "set (py_range a b step) = insert a (set (py_range (a + step) b step))"
      using True 1(2) by (subst py_range.simps) simp
    also have "\<dots> = {i. a \<le> i \<and> i < b \<and> (i - a) mod step = 0}"
    proof (rule set_eqI)
      fix i
      have m: "(i - (a + step)) mod step = (i - a) mod step"
        by (metis diff_diff_eq minus_mod_self2)
      have "i \<noteq> a \<Longrightarrow> a \<le> i \<Longrightarrow> (i - a) mod step = 0 \<Longrightarrow> a + step \<le> i"
      proof -
        assume h: "i \<noteq> a" "a \<le> i" "(i - a) mod step = 0"
        then have "step dvd (i - a)" by (simp add: dvd_eq_mod_eq_0)
        moreover have "0 < i - a" using h by simp
        ultimately have "step \<le> i - a" using zdvd_imp_le by blast
        then show ?thesis by simp
      qed
      note far = this
      show "i \<in> insert a (set (py_range (a + step) b step)) \<longleftrightarrow>
          i \<in> {i. a \<le> i \<and> i < b \<and> (i - a) mod step = 0}"
      proof
        assume "i \<in> insert a (set (py_range (a + step) b step))"
        then consider "i = a" | "a + step \<le> i" "i < b" "(i - (a + step)) mod step = 0"
          unfolding ih by blast
        then show "i \<in> {i. a \<le> i \<and> i < b \<and> (i - a) mod step = 0}"
        proof cases
          case 1
          then show ?thesis using True by simp
        next
          case 2
          then have "a \<le> i" using 1(2) by linarith
          with 2 m show ?thesis by simp
        qed
      next
        assume "i \<in> {i. a \<le> i \<and> i < b \<and> (i - a) mod step = 0}"
        then have h: "a \<le> i" "i < b" "(i - a) mod step = 0" by simp_all
        show "i \<in> insert a (set (py_range (a + step) b step))"
        proof (cases "i = a")
          case True
          then show ?thesis by simp
        next
          case False
          from far [OF False h(1) h(3)] h m show ?thesis unfolding ih by simp
        qed
      qed
    qed
    finally show ?thesis .
  qed
qed


lemma ceil_div_step:
  fixes a b t :: nat
  assumes "0 < t" "a < b"
  shows "(b - a + t - 1) div t = Suc ((b - (a + t) + t - 1) div t)"
proof (cases "a + t \<le> b")
  case True
  define y where "y = b - (a + t) + t - 1"
  have eq: "b - a + t - 1 = y + t" using True assms unfolding y_def by linarith
  have "(y + t) div t = Suc (y div t)" using assms(1) by simp
  then show ?thesis unfolding eq unfolding y_def .
next
  case False
  then have z: "b - (a + t) + t - 1 = t - 1" by linarith
  have "t \<le> b - a + t - 1" "b - a + t - 1 < 2 * t" using assms False by linarith+
  then have one: "(b - a + t - 1) div t = 1"
    by (intro div_nat_eqI) simp_all
  have "(t - 1) div t = 0" using assms(1) by simp
  then show ?thesis unfolding z one by simp
qed

lemma py_range_arith:
  assumes "0 < t"
  shows "py_range (int a) (int b) (int t) =
         map (\<lambda>k. int (a + k * t)) [0..<(b - a + t - 1) div t]"
proof (induction "b - a" arbitrary: a rule: less_induct)
  case less
  show ?case
  proof (cases "a < b")
    case False
    then have "(b - a + t - 1) div t = 0" using assms by simp
    moreover have "py_range (int a) (int b) (int t) = []"
      using False by (subst py_range.simps) simp
    ultimately show ?thesis by simp
  next
    case True
    have "b - (a + t) < b - a" using True assms by simp
    from less [OF this]
    have ih: "py_range (int (a + t)) (int b) (int t) =
        map (\<lambda>k. int (a + t + k * t)) [0..<(b - (a + t) + t - 1) div t]" .
    have "py_range (int a) (int b) (int t) = int a # py_range (int (a + t)) (int b) (int t)"
      using True assms by (subst py_range.simps) simp
    also have "\<dots> = int a # map (\<lambda>k. int (a + t + k * t)) [0..<(b - (a + t) + t - 1) div t]"
      by (simp only: ih)
    also have "\<dots> = map (\<lambda>k. int (a + k * t)) [0..<Suc ((b - (a + t) + t - 1) div t)]"
    proof -
      have "[0..<Suc ((b - (a + t) + t - 1) div t)] = 0 # map Suc [0..<(b - (a + t) + t - 1) div t]"
        by (simp add: upt_conv_Cons map_Suc_upt del: upt_Suc)
      then show ?thesis by (simp add: comp_def algebra_simps del: upt_Suc)
    qed
    finally have e: "py_range (int a) (int b) (int t) =
        map (\<lambda>k. int (a + k * t)) [0..<Suc ((b - (a + t) + t - 1) div t)]" .
    show ?thesis unfolding ceil_div_step [OF assms True] by (rule e)
  qed
qed


lemma addr_unit: "stride v = 1 \<Longrightarrow> 0 \<le> i \<Longrightarrow> addr v i = int (offset v) + i"
  by (simp add: addr_def)






lemma chunks1_eq:
  assumes "0 < t"
  shows "chunks1 n t = map (\<lambda>k. k * t) [0..<(n + t - 1) div t] @ [n]"
proof -
  have "map nat (py_range 0 (int n) (int t)) = map (\<lambda>k. k * t) [0..<(n + t - 1) div t]"
    using py_range_arith [OF assms, of 0 n]
    by (simp add: comp_def del: of_nat_mult of_nat_add)
  then show ?thesis by (simp add: chunks1_def)
qed


lemma chunk_view_unit: "stride (chunk_view n cs blk) = 1"
  by (simp add: chunk_view_def Let_def)

lemma chunk_view_bound: "offset (chunk_view n cs blk) + vsize (chunk_view n cs blk) \<le> n"
  by (simp add: chunk_view_def Let_def)


lemma chunk_view_chunks1_last:
  assumes t: "0 < t"
  shows "chunk_view n (chunks1 n t) ((n + t - 1) div t) = \<lparr>offset = n, stride = 1, vsize = 0\<rparr>"
  by (simp add: chunk_view_def Let_def chunks1_eq [OF t] nth_append)


lemma stride_mod:
  assumes "0 < p"
  shows "(int l - int (l mod p)) mod int p = 0"
proof -
  have "int l - int (l mod p) = int (l - l mod p)" by (simp add: of_nat_diff)
  also have "\<dots> = int (p * (l div p))" by (simp add: minus_mod_eq_mult_div)
  finally show ?thesis by simp
qed





lemma set_all_threads: "set (all_threads a b) = {0..<a} \<times> {0..<b}"
  by (simp add: all_threads_def)


lemma double_store_writes:
  assumes "n = length xs"
  shows "writes xs n (\<lambda>s. store_out v i (load v i (in1 s) * 2) s)
           {g. int g = addr v i} (\<lambda>g. xs ! g * 2)"
proof (rule writes_store [where val = "\<lambda>xs. load v i xs * 2"])
  fix g assume "g < n" "int g = addr v i"
  then show "load v i xs * 2 = xs ! g * 2"
    using assms by (simp add: load_def Let_def flip: \<open>int g = addr v i\<close>)
qed


lemma kernel_chunks_writes:
  assumes "n = length xs"
  shows "writes xs n (kernel_chunks v tid ntid)
           (stores_at v (py_range (int tid) (int (vsize v)) (int ntid))) (\<lambda>g. xs ! g * 2)"
proof -
  have "kernel_chunks v tid ntid =
      fold (\<lambda>i s. store_out v i (load v i (in1 s) * 2) s)
        (py_range (int tid) (int (vsize v)) (int ntid))"
    by (intro ext) (simp add: kernel_chunks_def)
  then show ?thesis
    unfolding stores_at_def using double_store_writes [OF assms]
    by (simp add: writes_fold)
qed

lemma stride_hit_iff:
  assumes "tid < ntid"
  shows "int tid \<le> int i \<and> (int i - int tid) mod int ntid = 0 \<longleftrightarrow> i mod ntid = tid"
proof
  assume h: "int tid \<le> int i \<and> (int i - int tid) mod int ntid = 0"
  then have le: "tid \<le> i" by simp
  then have "int (i - tid) mod int ntid = 0" using h by (simp add: of_nat_diff)
  then have "(i - tid) mod ntid = 0" by (metis of_nat_0_eq_iff zmod_int)
  then obtain q where "i - tid = ntid * q" by (auto simp: mod_eq_0_iff_dvd)
  then have "i = tid + ntid * q" using le by simp
  then show "i mod ntid = tid" using assms by simp
next
  assume h: "i mod ntid = tid"
  then have "tid \<le> i" by (metis mod_less_eq_dividend)
  moreover have "(int i - int tid) mod int ntid = 0"
    using stride_mod [of ntid i] assms h by simp
  ultimately show "int tid \<le> int i \<and> (int i - int tid) mod int ntid = 0" by simp
qed

lemma stores_at_chunk:
  assumes "tid < ntid" "stride v = 1"
  shows "stores_at v (py_range (int tid) (int (vsize v)) (int ntid)) =
         {g. offset v \<le> g \<and> g < offset v + vsize v \<and> (g - offset v) mod ntid = tid}"
proof (rule set_eqI)
  fix g
  have ip: "0 < int ntid" using assms(1) by simp
  show "g \<in> stores_at v (py_range (int tid) (int (vsize v)) (int ntid)) \<longleftrightarrow>
        g \<in> {g. offset v \<le> g \<and> g < offset v + vsize v \<and> (g - offset v) mod ntid = tid}"
  proof
    assume "g \<in> stores_at v (py_range (int tid) (int (vsize v)) (int ntid))"
    then obtain i where i: "int tid \<le> i" "i < int (vsize v)" "(i - int tid) mod int ntid = 0"
        "int g = addr v i"
      unfolding stores_at_def py_range_set [OF ip] by auto
    then have gi: "int g = int (offset v) + i" using assms(2) by (simp add: addr_unit)
    define j where "j = nat i"
    have j: "i = int j" using i(1) by (simp add: j_def)
    have "g = offset v + j" using gi j by simp
    moreover have "j mod ntid = tid" using stride_hit_iff [OF assms(1), of j] i j by simp
    moreover have "j < vsize v" using i(2) j by simp
    ultimately show "g \<in> {g. offset v \<le> g \<and> g < offset v + vsize v \<and> (g - offset v) mod ntid = tid}"
      by simp
  next
    assume "g \<in> {g. offset v \<le> g \<and> g < offset v + vsize v \<and> (g - offset v) mod ntid = tid}"
    then have g: "offset v \<le> g" "g < offset v + vsize v" "(g - offset v) mod ntid = tid" by simp_all
    define j where "j = g - offset v"
    have "int tid \<le> int j \<and> (int j - int tid) mod int ntid = 0"
      using stride_hit_iff [OF assms(1), of j] g(3) by (simp add: j_def)
    moreover have "int j < int (vsize v)" using g by (simp add: j_def)
    ultimately have "int j \<in> set (py_range (int tid) (int (vsize v)) (int ntid))"
      unfolding py_range_set [OF ip] by simp
    moreover have "int g = addr v (int j)" using assms(2) g(1) by (simp add: addr_unit j_def)
    ultimately show "g \<in> stores_at v (py_range (int tid) (int (vsize v)) (int ntid))"
      unfolding stores_at_def by blast
  qed
qed

subsection \<open>Stores outside the buffer\<close>

lemma tidy_fold:
  fixes F :: "'k \<Rightarrow> 'a cols \<Rightarrow> 'a cols"
  assumes "\<And>k. k \<in> set ks \<Longrightarrow> tidy n (F k)"
  shows "tidy n (fold F ks)"
  using assms
proof (induction ks)
  case Nil
  show ?case by (simp add: tidy_def)
next
  case (Cons k ks)
  have k: "tidy n (F k)" and rest: "tidy n (fold F ks)" using Cons by simp_all
  show ?case
    unfolding tidy_def
  proof (intro allI impI)
    fix s :: "'a cols" assume s: "length (out s) = n"
    then have a: "stray (F k s) = stray s" "length (out (F k s)) = n"
      using k by (simp_all add: tidy_def)
    then show "stray (fold F (k # ks) s) = stray s \<and> length (out (fold F (k # ks) s)) = n"
      using rest by (simp add: tidy_def)
  qed
qed

lemma tidy_store:
  assumes "0 \<le> addr v i" "addr v i < int n"
  shows "tidy n (\<lambda>s. store_out v i (val s) s)"
  using assms by (simp add: tidy_def store_out_def)

lemma grows_store: "grows (\<lambda>s. store_out v i (val s) s)"
  by (simp add: grows_def store_out_def Let_def)

lemma grows_comp:
  fixes F G :: "'a cols \<Rightarrow> 'a cols"
  assumes "grows F" "grows G"
  shows "grows (\<lambda>s. G (F s))"
  unfolding grows_def
proof (intro allI conjI)
  fix s :: "'a cols"
  show "length (out (G (F s))) = length (out s)" using assms by (simp add: grows_def)
  obtain e1 where "stray (F s) = stray s @ e1" using assms(1) unfolding grows_def by blast
  moreover obtain e2 where "stray (G (F s)) = stray (F s) @ e2"
    using assms(2) unfolding grows_def by blast
  ultimately have "stray (G (F s)) = stray s @ (e1 @ e2)" by simp
  then show "\<exists>extra. stray (G (F s)) = stray s @ extra" by blast
qed

lemma grows_fold:
  assumes "\<And>k. k \<in> set ks \<Longrightarrow> grows (F k)"
  shows "grows (fold F ks)"
  using assms
proof (induction ks rule: rev_induct)
  case Nil
  show ?case by (simp add: grows_def)
next
  case (snoc k ks)
  have "grows (\<lambda>s. F k (fold F ks s))"
    by (rule grows_comp) (use snoc in simp_all)
  moreover have "(\<lambda>s. F k (fold F ks s)) = fold F (ks @ [k])" by (simp add: fun_eq_iff)
  ultimately show ?case by simp
qed

lemma grows_mem:
  assumes "grows F" "e \<in> set (stray s)"
  shows "e \<in> set (stray (F s))"
proof -
  obtain extra where "stray (F s) = stray s @ extra" using assms(1) unfolding grows_def by blast
  then show ?thesis using assms(2) by simp
qed

lemma fold_stray_mem:
  assumes g: "\<And>k. k \<in> set ks \<Longrightarrow> grows (F k)"
    and k0: "k0 \<in> set ks"
    and hit: "\<And>s. length (out s) = n \<Longrightarrow> e \<in> set (stray (F k0 s))"
    and s: "length (out s) = n"
  shows "e \<in> set (stray (fold F ks s))"
  using g k0 s
proof (induction ks arbitrary: s)
  case Nil
  then show ?case by simp
next
  case (Cons k ks)
  have len: "length (out (F k s)) = n"
    using Cons.prems(1) [of k] Cons.prems(3) by (simp add: grows_def)
  show ?case
  proof (cases "k0 \<in> set ks")
    case True
    then show ?thesis using Cons.IH [OF _ True len] Cons.prems(1) by simp
  next
    case False
    then have "k = k0" using Cons.prems(2) by simp
    then have "e \<in> set (stray (F k s))" using hit [OF Cons.prems(3)] by simp
    moreover have "grows (fold F ks)" by (rule grows_fold) (use Cons.prems(1) in simp)
    ultimately show ?thesis using grows_mem by fastforce
  qed
qed

lemma kernel1_grows: "grows (kernel1 average_length v tid ntid)"
proof -
  have "kernel1 average_length v tid ntid =
      (\<lambda>s. fold (\<lambda>i s. store_out v i
                    (fdiv (window_sum v (in1 s) i average_length) average_length) s)
              (py_range (int tid + average_length - 1) (int (vsize v)) (int ntid))
              (fold (\<lambda>i s. store_out v i PInf s)
                 (py_range (int tid) (average_length - 1) (int ntid)) s))"
    by (rule ext) (simp add: kernel1_def Let_def)
  moreover have "grows (fold (\<lambda>i s. store_out v i PInf s) js)" for js
    by (rule grows_fold) (rule grows_store)
  moreover have "grows (fold (\<lambda>i s. store_out v i
      (fdiv (window_sum v (in1 s) i average_length) average_length) s) js)" for js
    by (rule grows_fold) (rule grows_store)
  ultimately show ?thesis by (simp add: grows_comp)
qed


lemma chunk_store_in_range:
  assumes "stride v = 1" "offset v + vsize v \<le> n" "0 \<le> i" "i < int (vsize v)"
  shows "0 \<le> addr v i" "addr v i < int n"
  using assms by (simp_all add: addr_unit)


lemma kernel2_tidy:
  assumes w: "1 \<le> w" and p: "0 < ntid" and v: "stride v = 1" "offset v + vsize v \<le> n"
  shows "tidy n (kernel2 (int w) v tid ntid)"
proof (cases "int (vsize v) - int w + int tid - int w + 1 < 0")
  case True
  then have "kernel2 (int w) v tid ntid = (\<lambda>s. s)" by (intro ext) (simp add: kernel2_def)
  then show ?thesis by (simp add: tidy_def)
next
  case False
  let ?js = "py_range (int (vsize v) - int w + int tid) (int (vsize v)) (int ntid)"
  let ?f = "\<lambda>i (s::f64 cols). store_out v i
                    (fdiv (window_sum v (in1 s) i (int w)) (int w)) s"
  have "tidy n (fold ?f ?js)"
  proof (rule tidy_fold)
    fix i assume "i \<in> set ?js"
    then have "0 \<le> i" "i < int (vsize v)" using p False w by (auto simp: py_range_set)
    then show "tidy n (?f i)"
      by (intro tidy_store chunk_store_in_range [OF v])
  qed
  moreover have "kernel2 (int w) v tid ntid = fold ?f ?js"
    using False by (intro ext) (simp add: kernel2_def)
  ultimately show ?thesis by simp
qed

lemma kernel1_strays_on_empty_chunk:
  assumes w: "2 \<le> w" and p: "0 < ntid" and s: "length (out s) = n"
  shows "(int n, PInf) \<in>
           set (stray (kernel1 (int w) \<lparr>offset = n, stride = 1, vsize = 0\<rparr> 0 ntid s))"
proof -
  let ?v = "\<lparr>offset = n, stride = 1, vsize = 0\<rparr>"
  let ?f1 = "\<lambda>i (s::f64 cols). store_out ?v i PInf s"
  let ?f2 = "\<lambda>i (s::f64 cols). store_out ?v i
                    (fdiv (window_sum ?v (in1 s) i (int w)) (int w)) s"
  have r1: "py_range (int 0) (int w - 1) (int ntid) =
      0 # py_range (int ntid) (int w - 1) (int ntid)"
    using w p by (subst py_range.simps) simp
  have first: "(int n, PInf) \<in> set (stray (?f1 0 s))"
    using s by (simp add: store_out_def addr_def)
  have "grows (fold ?f1 js)" for js by (rule grows_fold) (rule grows_store)
  then have a: "(int n, PInf) \<in> set (stray (fold ?f1 (py_range (int 0) (int w - 1) (int ntid)) s))"
    unfolding r1 using first grows_mem by fastforce
  have "grows (fold ?f2 js)" for js by (rule grows_fold) (rule grows_store)
  then have "(int n, PInf) \<in> set (stray (fold ?f2 (py_range (int 0 + int w - 1) (int (vsize ?v)) (int ntid))
      (fold ?f1 (py_range (int 0) (int w - 1) (int ntid)) s)))"
    using a grows_mem by blast
  then show ?thesis by (simp add: kernel1_def Let_def)
qed


lemma apply_chunks_tidy:
  assumes "\<And>blk tid. (blk, tid) \<in> set sched \<Longrightarrow> tidy n (kern (chunk_view n chunks blk) tid tpb)"
    and "length (in1 df) = n" "length (out df) = n"
    and "apply_chunks kern chunks tpb sched df = Inr df'"
  shows "stray df' = stray df"
proof -
  have "tidy n (fold (\<lambda>(blk, tid). kern (chunk_view n chunks blk) tid tpb) sched)"
    by (rule tidy_fold) (use assms(1) in auto)
  then show ?thesis using assms(2,3,4) by (auto simp: apply_chunks_def tidy_def split: if_splits)
qed

section \<open>The claims about the cuDF apply notebook\<close>










text \<open>
  C9, as stated, at a chunk of 4 values and a block of 2 threads: the thread-strided
  kernel does different work in the two threads. Thread 0 stores the doubles of the
  elements 0 and 2 and thread 1 those of the elements 1 and 3: the kernel divides the
  chunk among the threads of the block.
\<close>

theorem kernel_chunks_lanes_differ:
  "kernel_chunks \<lparr>offset = 0, stride = 1, vsize = 4\<rparr> 0 2
     \<lparr>in1 = [1, 2, 3, 4], out = [0, 0, 0, 0], stray = []\<rparr> =
   \<lparr>in1 = [1, 2, 3, 4], out = [2, 0, 6, 0], stray = []\<rparr> \<and>
   kernel_chunks \<lparr>offset = 0, stride = 1, vsize = 4\<rparr> 1 2
     \<lparr>in1 = [1, 2, 3, 4], out = [0, 0, 0, 0], stray = []\<rparr> =
   \<lparr>in1 = [1, 2, 3, 4], out = [0, 4, 0, 8], stray = []\<rparr>"
  by code_simp

text \<open>
  C9, amended. The thread-strided kernel of the notebook is sequential code without any
  coordination between threads, but it does divide the work among the threads of a
  block: run by thread \<open>tid\<close> of \<open>ntid\<close> on a chunk, it changes nothing but \<^verbatim>\<open>out\<close>, and
  there exactly the elements of the chunk whose position in the chunk is \<open>tid\<close> modulo
  \<open>ntid\<close>. So the threads of a block store to disjoint parts of the chunk, and every
  element of the chunk belongs to the part of one thread.
\<close>

theorem kernel_chunks_partition:
  assumes "tid < ntid" "stride v = 1" "length (out df) = length (in1 df)"
  shows "in1 (kernel_chunks v tid ntid df) = in1 df \<and>
         length (out (kernel_chunks v tid ntid df)) = length (out df) \<and>
         (\<forall>g < length (in1 df). out (kernel_chunks v tid ntid df) ! g =
            (if offset v \<le> g \<and> g < offset v + vsize v \<and> (g - offset v) mod ntid = tid
             then in1 df ! g * 2 else out df ! g))"
  using kernel_chunks_writes [of "length (in1 df)" "in1 df" v tid ntid] assms(3)
  unfolding writes_def stores_at_chunk [OF assms(1,2)] by simp

theorem kernel_chunks_partition_witness:
  "(0::nat) < 2 \<and>
   out (kernel_chunks \<lparr>offset = 1, stride = 1, vsize = 3\<rparr> 0 2
          \<lparr>in1 = [1, 2, 3, 4], out = [0, 0, 0, 0], stray = []\<rparr>) ! 3 = 8 \<and>
   out (kernel_chunks \<lparr>offset = 1, stride = 1, vsize = 3\<rparr> 0 2
          \<lparr>in1 = [1, 2, 3, 4], out = [0, 0, 0, 0], stray = []\<rparr>) ! 2 = 0"
proof -
  let ?v = "\<lparr>offset = 1, stride = 1, vsize = 3\<rparr>"
  let ?df = "\<lparr>in1 = [1, 2, 3, 4], out = [0, 0, 0, 0], stray = []\<rparr> :: real cols"
  have h1: "(0::nat) < 2" by simp
  have h2: "stride ?v = 1" by simp
  have h3: "length (out ?df) = length (in1 ?df)" by simp
  from kernel_chunks_partition [OF h1 h2 h3]
  have "\<forall>g < 4. out (kernel_chunks ?v 0 2 ?df) ! g =
      (if 1 \<le> g \<and> g < 4 \<and> (g - 1) mod 2 = 0 then [1, 2, 3, 4] ! g * 2 else [0, 0, 0, 0] ! g)"
    by simp
  then have "out (kernel_chunks ?v 0 2 ?df) ! 3 = 8" "out (kernel_chunks ?v 0 2 ?df) ! 2 = 0"
    by (simp_all add: numeral_3_eq_3)
  then show ?thesis by simp
qed

text \<open>
  X1. With a window of at least 2, the first launch of the moving-average cell stores
  outside the buffer of \<^verbatim>\<open>out\<close>: the chunk list ends with \<^verbatim>\<open>data_length\<close>, so the last block
  gets empty slices, and thread 0 of that block runs the first loop of \<^verbatim>\<open>kernel1\<close> and
  stores infinity at position \<^verbatim>\<open>data_length\<close>, one past the last element of the column.
\<close>

theorem kernel1_stores_past_end:
  assumes w: "2 \<le> w" and t: "1 \<le> t" and p: "1 \<le> tpb"
    and len: "length (out df) = length (in1 df)"
    and s1: "set sched1 = set (all_threads (length (chunks1 (length (in1 df)) t)) tpb)"
  shows "\<exists>df1. apply_chunks (kernel1 (int w)) (chunks1 (length (in1 df)) t) tpb sched1 df = Inr df1 \<and>
           (int (length (in1 df)), PInf) \<in> set (stray df1)"
proof -
  define n where "n = length (in1 df)"
  define m where "m = (n + t - 1) div t"
  have t0: "0 < t" and p0: "0 < tpb" using t p by simp_all
  let ?F = "\<lambda>(blk, tid). kernel1 (int w) (chunk_view n (chunks1 n t) blk) tid tpb"
  have last: "chunk_view n (chunks1 n t) m = \<lparr>offset = n, stride = 1, vsize = 0\<rparr>"
    unfolding m_def by (rule chunk_view_chunks1_last [OF t0])
  have "length (chunks1 n t) = Suc m" by (simp add: chunks1_eq [OF t0] m_def)
  then have k0: "(m, 0) \<in> set sched1" using p0 by (simp add: s1 set_all_threads n_def)
  have "(int n, PInf) \<in> set (stray (fold ?F sched1 df))"
  proof (rule fold_stray_mem [where ?k0.0 = "(m, 0)" and n = n])
    show "grows (?F k)" for k by (cases k) (simp add: kernel1_grows)
    show "(m, 0) \<in> set sched1" by (rule k0)
    show "(int n, PInf) \<in> set (stray (?F (m, 0) s))" if "length (out s) = n" for s
      using kernel1_strays_on_empty_chunk [OF w p0 that] by (simp add: last)
    show "length (out df) = n" using len by (simp add: n_def)
  qed
  then show ?thesis using p0 by (simp add: apply_chunks_def n_def)
qed

theorem kernel1_stores_past_end_witness:
  "apply_chunks (kernel1 (int 4)) (chunks1 5 3) 2 (all_threads 3 2)
     \<lparr>in1 = [1, 2, 3, 4, 5], out = [NaN, NaN, NaN, NaN, NaN], stray = []\<rparr> =
   Inr \<lparr>in1 = [1, 2, 3, 4, 5], out = [PInf, PInf, PInf, PInf, PInf],
        stray = [(5, PInf), (5, PInf), (7, PInf), (6, PInf)]\<rparr> \<and>
   (2::nat) \<le> 4 \<and>
   set (all_threads 3 2) = set (all_threads (length (chunks1 5 3)) 2)"
proof -
  let ?df = "\<lparr>in1 = [1, 2, 3, 4, 5], out = [NaN, NaN, NaN, NaN, NaN], stray = []\<rparr> :: f64 cols"
  have h1: "(2::nat) \<le> 4" and h2: "(1::nat) \<le> 3" and h3: "(1::nat) \<le> 2" by simp_all
  have h4: "length (out ?df) = length (in1 ?df)" by simp
  have l: "length (in1 ?df) = 5" by simp
  have c1: "chunks1 5 3 = [0, 3, 5]" by code_simp
  have h5: "set (all_threads 3 2) = set (all_threads (length (chunks1 (length (in1 ?df)) 3)) 2)"
    unfolding l c1 by (simp add: numeral_3_eq_3)
  have run: "apply_chunks (kernel1 (int 4)) (chunks1 5 3) 2 (all_threads 3 2) ?df =
      Inr \<lparr>in1 = [1, 2, 3, 4, 5], out = [PInf, PInf, PInf, PInf, PInf],
           stray = [(5, PInf), (5, PInf), (7, PInf), (6, PInf)]\<rparr>"
    by code_simp
  show ?thesis
    using kernel1_stores_past_end [OF h1 h2 h3 h4 h5] run h1 c1
    by (simp add: numeral_3_eq_3)
qed

text \<open>
  X2. The second launch of the cell stores inside the column only: whatever the list of
  chunk offsets and the order of the threads, a launch of \<^verbatim>\<open>kernel2\<close> with a window of at
  least 1 makes no store outside the buffer of \<^verbatim>\<open>out\<close>.
\<close>

theorem kernel2_stores_inside:
  assumes "1 \<le> w" and "length (out df) = length (in1 df)"
    and "apply_chunks (kernel2 (int w)) chunks tpb sched df = Inr df'"
  shows "stray df' = stray df"
proof (rule apply_chunks_tidy [OF _ _ _ assms(3)])
  have "0 < tpb" using assms(3) by (auto simp: apply_chunks_def split: if_splits)
  then show "tidy (length (in1 df)) (kernel2 (int w) (chunk_view (length (in1 df)) chunks blk) tid tpb)"
    for blk tid
    by (intro kernel2_tidy assms(1) chunk_view_unit chunk_view_bound)
  show "length (in1 df) = length (in1 df)" by simp
  show "length (out df) = length (in1 df)" by (rule assms(2))
qed

theorem kernel2_stores_inside_witness:
  "apply_chunks (kernel2 (int 2)) [0, 2, 4] 2 (all_threads 3 2)
     \<lparr>in1 = [1, 2, 3, 4], out = [PInf, NaN, PInf, NaN], stray = [(4, PInf)]\<rparr> =
   Inr \<lparr>in1 = [1, 2, 3, 4], out = [PInf, Fin (3 / 2), PInf, Fin (7 / 2)], stray = [(4, PInf)]\<rparr>"
proof -
  let ?df = "\<lparr>in1 = [1, 2, 3, 4], out = [PInf, NaN, PInf, NaN], stray = [(4, PInf)]\<rparr> :: f64 cols"
  have h1: "(1::nat) \<le> 2" by simp
  have h2: "length (out ?df) = length (in1 ?df)" by simp
  have run: "apply_chunks (kernel2 (int 2)) [0, 2, 4] 2 (all_threads 3 2) ?df =
      Inr \<lparr>in1 = [1, 2, 3, 4], out = [PInf, Fin (3 / 2), PInf, Fin (7 / 2)],
           stray = [(4, PInf)]\<rparr>"
    by code_simp
  show ?thesis using kernel2_stores_inside [OF h1 h2 run] run by simp
qed

section \<open>Proofs: the weighted Jaccard notebook\<close>

lemma best_edge_loop_upt:
  assumes "k \<le> length df" "b < k"
    and "\<forall>j < k. jaccard_coeff (df ! j) \<le> jaccard_coeff (df ! b)"
    and "\<forall>j < b. jaccard_coeff (df ! j) < jaccard_coeff (df ! b)"
  shows "\<exists>b'. best_edge_loop df [k..<length df] b = Inr b' \<and> first_max df b'"
  using assms
proof (induction "length df - k" arbitrary: k b)
  case 0
  then have "k = length df" by simp
  with 0 show ?case by (simp add: first_max_def)
next
  case (Suc m)
  then have k: "k < length df" by simp
  let ?x = "jaccard_coeff (df ! k)" and ?y = "jaccard_coeff (df ! b)"
  let ?b = "if ?x > ?y then k else b"
  have step: "best_edge_loop df [k..<length df] b = best_edge_loop df [Suc k..<length df] ?b"
    using k Suc.prems(2) by (simp add: upt_conv_Cons col_at_def)
  have m: "m = length df - Suc k" using Suc.hyps(2) by simp
  have le: "Suc k \<le> length df" using k by simp
  have lt: "?b < Suc k" using Suc.prems(2) by simp
  have all: "\<forall>j < Suc k. jaccard_coeff (df ! j) \<le> jaccard_coeff (df ! ?b)"
  proof (intro allI impI)
    fix j assume "j < Suc k"
    then consider "j < k" | "j = k" by linarith
    then show "jaccard_coeff (df ! j) \<le> jaccard_coeff (df ! ?b)"
    proof cases
      case 1
      with Suc.prems(3) have "jaccard_coeff (df ! j) \<le> ?y" by simp
      then show ?thesis by simp
    next
      case 2
      then show ?thesis by simp
    qed
  qed
  have before: "\<forall>j < ?b. jaccard_coeff (df ! j) < jaccard_coeff (df ! ?b)"
  proof (intro allI impI)
    fix j assume j: "j < ?b"
    show "jaccard_coeff (df ! j) < jaccard_coeff (df ! ?b)"
    proof (cases "?x > ?y")
      case True
      with j have "j < k" by simp
      with Suc.prems(3) have "jaccard_coeff (df ! j) \<le> ?y" by simp
      with True show ?thesis by simp
    next
      case False
      with j Suc.prems(4) show ?thesis by simp
    qed
  qed
  from Suc.hyps(1) [OF m le lt all before] step show ?case by simp
qed

lemma select_best_edge_first_max:
  assumes "df \<noteq> []"
  shows "\<exists>b. select_best_edge df = Inr b \<and> first_max df b"
proof -
  have len: "0 < length df" using assms by simp
  have step: "select_best_edge df = best_edge_loop df [Suc 0..<length df] 0"
    using len by (simp add: select_best_edge_def upt_conv_Cons col_at_def)
  have "\<exists>b'. best_edge_loop df [Suc 0..<length df] 0 = Inr b' \<and> first_max df b'"
    by (rule best_edge_loop_upt) (use len in \<open>auto simp: Suc_le_eq\<close>)
  with step show ?thesis by simp
qed

text \<open>
  C5. For a non-empty result frame the selection loop ends without an index error, with
  \<^verbatim>\<open>bestEdge\<close> the smallest row index at which \<^verbatim>\<open>jaccard_coeff\<close> is maximal, and the three
  reads of the print succeed at that row; for the empty frame the loop leaves
  \<^verbatim>\<open>bestEdge = 0\<close> and the first read of the print, at index 0, is out of bounds.
\<close>

theorem best_edge_selection:
  "(df \<noteq> [] \<longrightarrow>
      (\<exists>b. select_best_edge df = Inr b \<and> b < length df \<and>
           (\<forall>j < length df. jaccard_coeff (df ! j) \<le> jaccard_coeff (df ! b)) \<and>
           (\<forall>j < b. jaccard_coeff (df ! j) < jaccard_coeff (df ! b)) \<and>
           report_best_edge df =
             Inr (source (df ! b), destination (df ! b), jaccard_coeff (df ! b)))) \<and>
   (df = [] \<longrightarrow> select_best_edge df = Inr 0 \<and> report_best_edge df = Inl IndexError)"
proof (intro conjI impI)
  assume ne: "df \<noteq> []"
  from select_best_edge_first_max [OF ne]
  obtain b where b: "select_best_edge df = Inr b" "first_max df b" by blast
  then have "report_best_edge df =
      Inr (source (df ! b), destination (df ! b), jaccard_coeff (df ! b))"
    by (simp add: report_best_edge_def col_at_def first_max_def)
  with b show "\<exists>b. select_best_edge df = Inr b \<and> b < length df \<and>
           (\<forall>j < length df. jaccard_coeff (df ! j) \<le> jaccard_coeff (df ! b)) \<and>
           (\<forall>j < b. jaccard_coeff (df ! j) < jaccard_coeff (df ! b)) \<and>
           report_best_edge df =
             Inr (source (df ! b), destination (df ! b), jaccard_coeff (df ! b))"
    unfolding first_max_def by blast
next
  assume "df = []"
  then show "select_best_edge df = Inr 0"
    by (simp add: select_best_edge_def)
next
  assume "df = []"
  then show "report_best_edge df = Inl IndexError"
    by (simp add: report_best_edge_def select_best_edge_def col_at_def)
qed

theorem best_edge_selection_witness:
  "[\<lparr>source = 1, destination = 2, jaccard_coeff = 1 / 2\<rparr>,
    \<lparr>source = 4, destination = 8, jaccard_coeff = 9 / 10\<rparr>,
    \<lparr>source = 3, destination = 5, jaccard_coeff = 9 / 10\<rparr>] \<noteq> [] \<and>
   select_best_edge
     [\<lparr>source = 1, destination = 2, jaccard_coeff = 1 / 2\<rparr>,
      \<lparr>source = 4, destination = 8, jaccard_coeff = 9 / 10\<rparr>,
      \<lparr>source = 3, destination = 5, jaccard_coeff = 9 / 10\<rparr>] = Inr 1 \<and>
   report_best_edge
     [\<lparr>source = 1, destination = 2, jaccard_coeff = 1 / 2\<rparr>,
      \<lparr>source = 4, destination = 8, jaccard_coeff = 9 / 10\<rparr>,
      \<lparr>source = 3, destination = 5, jaccard_coeff = 9 / 10\<rparr>] = Inr (4, 8, 9 / 10) \<and>
   report_best_edge [] = Inl IndexError"
  using best_edge_selection
     [of "[\<lparr>source = 1, destination = 2, jaccard_coeff = 1 / 2\<rparr>,
           \<lparr>source = 4, destination = 8, jaccard_coeff = 9 / 10\<rparr>,
           \<lparr>source = 3, destination = 5, jaccard_coeff = 9 / 10\<rparr>]"]
    best_edge_selection [of "[]"]
  by (simp add: select_best_edge_def report_best_edge_def col_at_def upt_conv_Cons)

lemma sint_sub_one:
  fixes x :: i32
  assumes "x \<noteq> - (2 ^ 31)"
  shows "sint (x - 1) = sint x - 1"
proof -
  have ne: "sint x \<noteq> - (2 ^ 31)"
  proof
    assume "sint x = - (2 ^ 31)"
    then have "sint x = sint (- (2 ^ 31) :: i32)" by simp
    then have "x = - (2 ^ 31)" by (rule signed_word_eqI)
    with assms show False by simp
  qed
  have lo: "- (2 ^ 31) \<le> sint x" using sint_ge [of x] by simp
  have hi: "sint x < 2 ^ 31" using sint_lt [of x] by simp
  have "sint (x - 1) = signed_take_bit 31 (sint x - 1)"
    by (simp add: sint_word_ariths)
  also have "\<dots> = sint x - 1"
    using ne lo hi by (simp add: signed_take_bit_int_eq_self)
  finally show ?thesis .
qed

text \<open>
  C7. On a frame that has the columns \<^verbatim>\<open>src\<close> and \<^verbatim>\<open>dst\<close> the renumbering cell succeeds;
  afterwards \<^verbatim>\<open>src_id\<close> is \<^verbatim>\<open>src\<close> minus 1 and \<^verbatim>\<open>dst_id\<close> is \<^verbatim>\<open>dst\<close> minus 1, row by row
  (in the 32-bit arithmetic of the int32 columns, and as integers in every row whose
  value is not the least int32), \<^verbatim>\<open>src\<close> and \<^verbatim>\<open>dst\<close> are unchanged, and so is every column
  other than \<^verbatim>\<open>src_id\<close> and \<^verbatim>\<open>dst_id\<close>.
\<close>

theorem renumber_columns:
  assumes "df ''src'' = Some s" "df ''dst'' = Some d"
  shows "\<exists>df'. renumber df = Inr df' \<and>
     df' ''src_id'' = Some (map (\<lambda>x. x - 1) s) \<and>
     df' ''dst_id'' = Some (map (\<lambda>x. x - 1) d) \<and>
     df' ''src'' = Some s \<and> df' ''dst'' = Some d \<and>
     (\<forall>c. c \<noteq> ''src_id'' \<and> c \<noteq> ''dst_id'' \<longrightarrow> df' c = df c) \<and>
     (\<forall>i < length s. s ! i \<noteq> - (2 ^ 31) \<longrightarrow>
        sint (map (\<lambda>x. x - 1) s ! i) = sint (s ! i) - 1) \<and>
     (\<forall>i < length d. d ! i \<noteq> - (2 ^ 31) \<longrightarrow>
        sint (map (\<lambda>x. x - 1) d ! i) = sint (d ! i) - 1)"
  using assms
  by (simp add: renumber_def getitem_def setitem_def series_sub_def sint_sub_one)

theorem renumber_columns_witness:
  "renumber [''src'' \<mapsto> [1, 2, 34], ''dst'' \<mapsto> [2, 3, 1]] =
     Inr [''src'' \<mapsto> [1, 2, 34], ''dst'' \<mapsto> [2, 3, 1],
          ''src_id'' \<mapsto> [0, 1, 33], ''dst_id'' \<mapsto> [1, 2, 0]] \<and>
   sint (map (\<lambda>x. x - 1) [1, 2, 34 :: i32] ! 2) = 33"
proof -
  let ?df = "[''src'' \<mapsto> [1, 2, 34], ''dst'' \<mapsto> [2, 3, 1]] :: gdf"
  have h1: "?df ''src'' = Some [1, 2, 34]" by simp
  have h2: "?df ''dst'' = Some [2, 3, 1]" by simp
  have run: "renumber ?df = Inr [''src'' \<mapsto> [1, 2, 34], ''dst'' \<mapsto> [2, 3, 1],
          ''src_id'' \<mapsto> [0, 1, 33], ''dst_id'' \<mapsto> [1, 2, 0]]"
    by (simp add: renumber_def getitem_def setitem_def series_sub_def)
  show ?thesis
    using renumber_columns [OF h1 h2] run by simp
qed

section \<open>Proofs: the helpers of the PCA notebook\<close>









section \<open>Proofs: the two \<^verbatim>\<open>load_data\<close> functions and the files they touch\<close>


lemma load_data_pca_trace:
  "fst (load_data_pca fs rnd nrows ncols cached) =
     (if fs cached = None then [PathExists cached False]
      else [PathExists cached True, Stdout ''use mortgage data'',
            OpenFile cached ReadMode GzipNpy])"
  by (auto simp: load_data_pca_def path_exists_def np_load_gz_def Let_def
      split: sum.splits option.splits stored_file.splits)

lemma load_data_cd_trace:
  "fst (load_data_cd fs rnd mk nrows ncols cached) =
     (if fs cached = None then [PathExists cached False, Stdout ''use random data'']
      else [PathExists cached True, Stdout ''use mortgage data'',
            OpenFile cached ReadMode GzipNpy])"
  by (auto simp: load_data_cd_def path_exists_def np_load_gz_def Let_def
      split: sum.splits option.splits stored_file.splits prod.splits)

lemma reads_guarded_absent1: "reads_guarded [PathExists path False]"
  by (simp add: reads_guarded_def)

lemma reads_guarded_absent2: "reads_guarded [PathExists path False, Stdout s]"
  by (auto simp: reads_guarded_def nth_Cons split: nat.splits)

lemma reads_guarded_present:
  "reads_guarded [PathExists path True, Stdout s, OpenFile path ReadMode GzipNpy]"
  by (auto simp: reads_guarded_def nth_Cons less_Suc_eq split: nat.splits)

lemma reads_guarded_csv: "reads_guarded [OpenFile path ReadMode FlatCsv]"
  by (simp add: reads_guarded_def)

text \<open>
  C8. Whatever the file system holds and whatever the arguments, the two \<^verbatim>\<open>load_data\<close>
  functions and the \<^verbatim>\<open>read_csv\<close> call open files for reading only, never for writing;
  the compressed array is opened only after \<^verbatim>\<open>os.path.exists\<close> answered True for its
  path; and the only other file opened is the tab-separated edge list, read as a flat
  CSV file.
\<close>

theorem file_effects_read_only:
  "reads_guarded (fst (load_data_pca fs rnd nrows ncols cached)) \<and>
   reads_guarded (fst (load_data_cd fs rnd mk nrows ncols cached')) \<and>
   reads_guarded (fst (read_csv fs datafile)) \<and>
   fst (read_csv fs datafile) = [OpenFile datafile ReadMode FlatCsv]"
  by (simp add: load_data_pca_trace load_data_cd_trace read_csv_def
      reads_guarded_absent1 reads_guarded_absent2 reads_guarded_present reads_guarded_csv)

theorem file_effects_read_only_witness:
  "fst (load_data_pca [mortgage_path \<mapsto> NpyGz \<lparr>shape1 = 1, mrows = [[1], [2], [3]]\<rparr>]
          (\<lambda>k. k) 2 1 mortgage_path) =
     [PathExists mortgage_path True, Stdout ''use mortgage data'',
      OpenFile mortgage_path ReadMode GzipNpy] \<and>
   reads_guarded [PathExists mortgage_path True, Stdout ''use mortgage data'',
      OpenFile mortgage_path ReadMode GzipNpy] \<and>
   \<not> reads_guarded [OpenFile mortgage_path ReadMode GzipNpy]"
proof -
  let ?fs = "[mortgage_path \<mapsto> NpyGz \<lparr>shape1 = 1, mrows = [[1], [2], [3]]\<rparr>]"
  have tr: "fst (load_data_pca ?fs (\<lambda>k. k) 2 1 mortgage_path) =
      [PathExists mortgage_path True, Stdout ''use mortgage data'',
       OpenFile mortgage_path ReadMode GzipNpy]"
    by (simp add: load_data_pca_trace)
  have bad: "\<not> reads_guarded [OpenFile mortgage_path ReadMode GzipNpy]"
    by (simp add: reads_guarded_def)
  show ?thesis
    using file_effects_read_only [of ?fs "\<lambda>k. k" 2 1 mortgage_path] tr bad by simp
qed

text \<open>
  C3, as stated, on a file system without the cached file: \<^verbatim>\<open>load_data\<close> of the PCA
  notebook raises an exception of its own, FileNotFoundError, and \<^verbatim>\<open>load_data\<close> of the
  coordinate-descent notebook returns frames cut from the data \<^verbatim>\<open>make_regression\<close>
  generated in place of the missing file.
\<close>

theorem load_data_handles_missing_file:
  "load_data_pca Map.empty (\<lambda>k. 0) 4 2 mortgage_path =
     ([PathExists mortgage_path False], Inl FileNotFoundError) \<and>
   load_data_cd Map.empty (\<lambda>k. 0)
       (\<lambda>n c. (\<lparr>shape1 = c, mrows = replicate n (replicate c 1)\<rparr>, replicate n 7)) 5 1
       mortgage_path =
     ([PathExists mortgage_path False, Stdout ''use random data''],
      Inr ([(Fea 0, [1, 1, 1, 1])], [(Fea 0, [1])], [(Fea 0, [7, 7, 7, 7])], [(Fea 0, [7])]))"
  by code_simp

text \<open>
  C3, amended. The notebooks retry nothing, but two of their functions do handle a
  missing input themselves. When the cached file does not exist, \<^verbatim>\<open>load_data\<close> of the PCA
  notebook raises FileNotFoundError, and it raises that error in no other case;
  \<^verbatim>\<open>load_data\<close> of the coordinate-descent notebook then returns the split of the data
  that \<^verbatim>\<open>make_regression\<close> generates, and does not call the generator when the file
  exists. Either function tests for the file exactly once.
\<close>

theorem load_data_missing_file:
  "(fs cached = None \<longrightarrow>
      load_data_pca fs rnd nrows ncols cached = ([PathExists cached False], Inl FileNotFoundError) \<and>
      load_data_cd fs rnd mk nrows ncols cached =
        ([PathExists cached False, Stdout ''use random data''],
         Inr (frame_cols (fst (mk nrows ncols))
                (take (train_rows_of nrows) (mrows (fst (mk nrows ncols)))),
              frame_cols (fst (mk nrows ncols))
                (drop (train_rows_of nrows) (mrows (fst (mk nrows ncols)))),
              [(Fea 0, take (train_rows_of nrows) (snd (mk nrows ncols)))],
              [(Fea 0, drop (train_rows_of nrows) (snd (mk nrows ncols)))]))) \<and>
   (fs cached \<noteq> None \<longrightarrow>
      snd (load_data_pca fs rnd nrows ncols cached) \<noteq> Inl FileNotFoundError \<and>
      load_data_cd fs rnd mk nrows ncols cached = load_data_cd fs rnd mk' nrows ncols cached) \<and>
   length (filter is_path_test (fst (load_data_pca fs rnd nrows ncols cached))) = 1 \<and>
   length (filter is_path_test (fst (load_data_cd fs rnd mk nrows ncols cached))) = 1"
proof (intro conjI impI)
  assume "fs cached = None"
  then show "load_data_pca fs rnd nrows ncols cached =
      ([PathExists cached False], Inl FileNotFoundError)"
    by (simp add: load_data_pca_def path_exists_def)
next
  assume "fs cached = None"
  then show "load_data_cd fs rnd mk nrows ncols cached =
        ([PathExists cached False, Stdout ''use random data''],
         Inr (frame_cols (fst (mk nrows ncols))
                (take (train_rows_of nrows) (mrows (fst (mk nrows ncols)))),
              frame_cols (fst (mk nrows ncols))
                (drop (train_rows_of nrows) (mrows (fst (mk nrows ncols)))),
              [(Fea 0, take (train_rows_of nrows) (snd (mk nrows ncols)))],
              [(Fea 0, drop (train_rows_of nrows) (snd (mk nrows ncols)))]))"
    by (simp add: load_data_cd_def path_exists_def Let_def split: prod.splits)
next
  assume "fs cached \<noteq> None"
  then show "snd (load_data_pca fs rnd nrows ncols cached) \<noteq> Inl FileNotFoundError"
    by (auto simp: load_data_pca_def path_exists_def np_load_gz_def randint_def fancy_rows_def
        Let_def split: sum.splits option.splits stored_file.splits if_splits)
next
  assume "fs cached \<noteq> None"
  then show "load_data_cd fs rnd mk nrows ncols cached = load_data_cd fs rnd mk' nrows ncols cached"
    by (simp add: load_data_cd_def path_exists_def Let_def)
next
  show "length (filter is_path_test (fst (load_data_pca fs rnd nrows ncols cached))) = 1"
    by (simp add: load_data_pca_trace is_path_test_def)
next
  show "length (filter is_path_test (fst (load_data_cd fs rnd mk nrows ncols cached))) = 1"
    by (simp add: load_data_cd_trace is_path_test_def)
qed

theorem load_data_missing_file_witness:
  "load_data_pca Map.empty (\<lambda>k. k) 4 2 mortgage_path =
     ([PathExists mortgage_path False], Inl FileNotFoundError) \<and>
   snd (load_data_pca [mortgage_path \<mapsto> OtherFile] (\<lambda>k. k) 4 2 mortgage_path) =
     Inl LibraryError"
proof -
  have absent: "Map.empty mortgage_path = (None :: stored_file option)" by simp
  have present: "[mortgage_path \<mapsto> OtherFile] mortgage_path \<noteq> None" by simp
  have run: "snd (load_data_pca [mortgage_path \<mapsto> OtherFile] (\<lambda>k. k) 4 2 mortgage_path) =
      Inl LibraryError"
    by (simp add: load_data_pca_def path_exists_def np_load_gz_def)
  show ?thesis
    using load_data_missing_file [of Map.empty mortgage_path "\<lambda>k. k" 4 2]
      load_data_missing_file [of "[mortgage_path \<mapsto> OtherFile]" mortgage_path "\<lambda>k. k" 4 2]
      absent present run
    by simp
qed

lemma frame_len_cols:
  assumes "0 < shape1 X"
  shows "frame_len (frame_cols X R) = length R"
proof -
  have "[0..<shape1 X] = 0 # [1..<shape1 X]" using assms by (simp add: upt_conv_Cons)
  then show ?thesis by (simp add: frame_len_def frame_cols_def)
qed

lemma frame_rows_cols:
  assumes "0 < shape1 X" "list_all (\<lambda>r. length r = shape1 X) R"
  shows "frame_rows (frame_cols X R) = R"
proof (rule nth_equalityI)
  show len: "length (frame_rows (frame_cols X R)) = length R"
    by (simp add: frame_rows_def frame_len_cols [OF assms(1)])
  fix i assume "i < length (frame_rows (frame_cols X R))"
  then have i: "i < length R" using len by simp
  then have li: "length (R ! i) = shape1 X" using assms(2) by (simp add: list_all_length)
  have "frame_rows (frame_cols X R) ! i = map (\<lambda>c. snd c ! i) (frame_cols X R)"
    using i by (simp add: frame_rows_def frame_len_cols [OF assms(1)])
  also have "\<dots> = map (\<lambda>j. R ! i ! j) [0..<shape1 X]"
    using i by (simp add: frame_cols_def comp_def)
  also have "\<dots> = R ! i" using li by (metis map_nth)
  finally show "frame_rows (frame_cols X R) ! i = R ! i" .
qed





lemma randint_ok:
  assumes "0 < high"
  shows "\<exists>idx. randint rnd 0 high n = Inr idx \<and> length idx = n \<and> list_all (\<lambda>k. 0 \<le> k \<and> k < high) idx"
  using assms by (simp add: randint_def list_all_iff)

lemma fancy_rows_ok:
  assumes "list_all (\<lambda>k. 0 \<le> k \<and> k < int (length (mrows X)) - 1) idx" "wf_matrix X"
  shows "\<exists>X'. fancy_rows X idx c = Inr X' \<and> shape1 X' = min c (shape1 X) \<and>
           length (mrows X') = length idx \<and> wf_matrix X' \<and>
           mrows X' = map (\<lambda>k. take c (mrows X ! nat k)) idx"
proof -
  have in_range: "list_all (\<lambda>k. - int (length (mrows X)) \<le> k \<and> k < int (length (mrows X))) idx"
    using assms(1) unfolding list_all_iff by auto
  have rows: "map (\<lambda>k. take c (mrows X ! nat (if k < 0 then k + int (length (mrows X)) else k))) idx
      = map (\<lambda>k. take c (mrows X ! nat k)) idx"
    using assms(1) unfolding list_all_iff by (intro map_cong) auto
  have "length (take c (mrows X ! nat k)) = min c (shape1 X)" if "k \<in> set idx" for k
  proof -
    have "nat k < length (mrows X)" using that assms(1) unfolding list_all_iff by auto
    then have "length (mrows X ! nat k) = shape1 X"
      using assms(2) by (simp add: wf_matrix_def list_all_length)
    then show ?thesis by (simp add: min.commute)
  qed
  then have wf: "wf_matrix \<lparr>shape1 = min c (shape1 X), mrows = map (\<lambda>k. take c (mrows X ! nat k)) idx\<rparr>"
    by (simp add: wf_matrix_def list_all_iff)
  have "fancy_rows X idx c = Inr \<lparr>shape1 = min c (shape1 X),
      mrows = map (\<lambda>k. take c (mrows X ! nat (if k < 0 then k + int (length (mrows X)) else k))) idx\<rparr>"
    using in_range by (simp add: fancy_rows_def Let_def)
  then have "fancy_rows X idx c =
      Inr \<lparr>shape1 = min c (shape1 X), mrows = map (\<lambda>k. take c (mrows X ! nat k)) idx\<rparr>"
    by (simp only: rows)
  then show ?thesis using wf by simp
qed








text \<open>
  X3. When the cached file holds a well-formed array of at least two rows and one
  column, \<^verbatim>\<open>load_data\<close> of the PCA notebook returns a frame of \<open>nrows\<close> rows and
  \<open>min(ncols, shape[1])\<close> columns, each row a row of the array cut to its first \<open>ncols\<close>
  columns; the upper bound \<^verbatim>\<open>X.shape[0]-1\<close> of \<^verbatim>\<open>randint\<close> is exclusive, so the last row of
  the array is never drawn.
\<close>

theorem load_data_pca_rows:
  assumes some: "fs cached = Some (NpyGz X)" and wf: "wf_matrix X"
    and rows: "2 \<le> length (mrows X)" and nc: "1 \<le> ncols" and cols: "1 \<le> shape1 X"
  shows "\<exists>df. snd (load_data_pca fs rnd nrows ncols cached) = Inr df \<and>
           frame_len df = nrows \<and> length df = min ncols (shape1 X) \<and>
           list_all (\<lambda>r. \<exists>k < length (mrows X) - 1. r = take ncols (mrows X ! k)) (frame_rows df)"
proof -
  have high: "0 < int (length (mrows X)) - 1" using rows by simp
  from randint_ok [OF high, of rnd nrows]
  obtain idx where idx: "randint rnd 0 (int (length (mrows X)) - 1) nrows = Inr idx"
      "length idx = nrows" "list_all (\<lambda>k. 0 \<le> k \<and> k < int (length (mrows X)) - 1) idx"
    by blast
  from fancy_rows_ok [OF idx(3) wf, of ncols]
  obtain X' where X': "fancy_rows X idx ncols = Inr X'" "shape1 X' = min ncols (shape1 X)"
      "length (mrows X') = length idx" "wf_matrix X'"
      "mrows X' = map (\<lambda>k. take ncols (mrows X ! nat k)) idx"
    by blast
  have pos: "0 < shape1 X'" using X'(2) nc cols by simp
  have run: "snd (load_data_pca fs rnd nrows ncols cached) = Inr (frame_cols X' (mrows X'))"
    using some idx(1) X'(1)
    by (simp add: load_data_pca_def path_exists_def np_load_gz_def Let_def)
  have fr: "frame_rows (frame_cols X' (mrows X')) = mrows X'"
    using X'(4) by (intro frame_rows_cols [OF pos]) (simp add: wf_matrix_def)
  have "\<exists>j < length (mrows X) - 1. take ncols (mrows X ! nat k) = take ncols (mrows X ! j)"
    if "k \<in> set idx" for k
  proof -
    have "0 \<le> k" "k < int (length (mrows X)) - 1"
      using that idx(3) by (simp_all add: list_all_iff)
    then have "nat k < length (mrows X) - 1" by linarith
    then show ?thesis by blast
  qed
  then have "list_all (\<lambda>r. \<exists>k < length (mrows X) - 1. r = take ncols (mrows X ! k)) (mrows X')"
    unfolding X'(5) by (simp add: list_all_iff)
  then have all: "list_all (\<lambda>r. \<exists>k < length (mrows X) - 1. r = take ncols (mrows X ! k))
      (frame_rows (frame_cols X' (mrows X')))"
    by (simp only: fr)
  have len: "frame_len (frame_cols X' (mrows X')) = nrows"
    using frame_len_cols [OF pos, of "mrows X'"] X'(3) idx(2) by simp
  have cols': "length (frame_cols X' (mrows X')) = min ncols (shape1 X)"
    using X'(2) by (simp add: frame_cols_def)
  show ?thesis using run all len cols' by blast
qed

theorem load_data_pca_rows_witness:
  "snd (load_data_pca [mortgage_path \<mapsto> NpyGz \<lparr>shape1 = 2, mrows = [[1, 2], [3, 4], [5, 6]]\<rparr>]
          (\<lambda>k. k) 4 1 mortgage_path) =
     Inr [(Fea 0, [1, 3, 1, 3])] \<and>
   frame_rows [(Fea 0, [1, 3, 1, 3])] = [[1], [3], [1], [3]]"
proof -
  let ?X = "\<lparr>shape1 = 2, mrows = [[1, 2], [3, 4], [5, 6]]\<rparr>"
  let ?fs = "[mortgage_path \<mapsto> NpyGz ?X]"
  have h1: "?fs mortgage_path = Some (NpyGz ?X)" by simp
  have h2: "wf_matrix ?X" by (simp add: wf_matrix_def)
  have h3: "2 \<le> length (mrows ?X)" by simp
  have h4: "(1::nat) \<le> 1" by simp
  have h5: "1 \<le> shape1 ?X" by simp
  have run: "snd (load_data_pca ?fs (\<lambda>k. k) 4 1 mortgage_path) = Inr [(Fea 0, [1, 3, 1, 3])]"
    by code_simp
  have fr: "frame_rows [(Fea 0, [1, 3, 1, 3])] = [[1], [3], [1], [3]]" by code_simp
  show ?thesis
    using load_data_pca_rows [where fs = ?fs and cached = mortgage_path and X = ?X
        and ncols = 1 and rnd = "\<lambda>k. k" and nrows = 4, OF h1 h2 h3 h4 h5] run fr
    by simp
qed

end
